theory Spec2Isabelle
  imports Complex_Main "HOL-Library.Sublist" "HOL-Library.AList" "HOL-Library.Log_Nat"
begin

section \<open>Errors and effects\<close>

text \<open>
  Python exceptions of \<^verbatim>\<open>spider.py\<close> and \<^verbatim>\<open>pscan.py\<close> as values. A function that can
  raise returns \<open>error + 'a\<close>, with \<open>Inl\<close> for the exception.

  \<^item> \<open>AttributeError\<close>: \<^verbatim>\<open>m.group(2)\<close> on \<^verbatim>\<open>m = None\<close> in \<^verbatim>\<open>get_domain\<close>; the
    specification calls it \<open>DomainParseError\<close>.
  \<^item> \<open>ZeroDivisionError\<close>: \<^verbatim>\<open>tf[word] / max_freq\<close> with \<^verbatim>\<open>max_freq == 0\<close>.
  \<^item> \<open>ValueError\<close>: \<^verbatim>\<open>int(s)\<close> on a string that is not an integer literal.
  \<^item> \<open>IndexError\<close>: \<^verbatim>\<open>port_args[0]\<close> on an empty list.
  \<^item> \<open>OSError\<close>: \<^verbatim>\<open>open(cache_fname, 'w')\<close> on a path that cannot be created.
\<close>

datatype error = AttributeError | ZeroDivisionError | ValueError | IndexError | OSError

abbreviation DomainParseError :: error where
  "DomainParseError \<equiv> AttributeError"

text \<open>
  What a call does besides returning: lines printed, HTTP requests issued, pauses
  (\<^verbatim>\<open>time.sleep(0.2)\<close>, recorded in milliseconds), cache files read and written.
\<close>

datatype effect =
    Print string
  | HttpGet string
  | Sleep nat
  | ReadFile string
  | WriteFile string "string list"

section \<open>Page fetcher\<close>

text \<open>
  \<^verbatim>\<open>url.startswith('http')\<close> and the rewriting of lines 43-44 of \<^verbatim>\<open>spider.py\<close>:
  \<^verbatim>\<open>
  if not url.startswith('http'):
      url = base + url
  \<close>
\<close>

definition resolve :: "string \<Rightarrow> string \<Rightarrow> string" where
  "resolve url base = (if \<not> prefix ''http'' url then base @ url else url)"

text \<open>
  \<^verbatim>\<open>retrieve_page(url, base)\<close>. The link target is \<open>None\<close> when the anchor has no
  \<^verbatim>\<open>href\<close>. The network is a parameter: \<open>net u\<close> is \<open>Inr text\<close> when
  \<^verbatim>\<open>requests.get(u).text\<close> returns, and \<open>Inl msg\<close> when it raises an exception
  whose message is \<open>msg\<close>. The result is the returned string and the effects in order.
\<close>

definition retrieve_page ::
  "(string \<Rightarrow> string + string) \<Rightarrow> string option \<Rightarrow> string \<Rightarrow> string \<times> effect list" where
  "retrieve_page net url base =
     (case url of
        None \<Rightarrow> ('''', [])
      | Some u \<Rightarrow>
          (let u' = resolve u base;
               t = [Print (''[+] Retrieving '' @ u'), HttpGet u']
           in case net u' of
                Inl msg \<Rightarrow>
                  ('''', t @ [Print ''[-] Error retrieving page content'',
                              Print (''[-] '' @ msg)])
              | Inr content \<Rightarrow> (content, t @ [Sleep 200])))"

text \<open>
  \<^verbatim>\<open>[retrieve_page(link, url) for link in links]\<close>: the links are fetched in order.
\<close>

fun retrieve_pages ::
  "(string \<Rightarrow> string + string) \<Rightarrow> string option list \<Rightarrow> string \<Rightarrow> string list \<times> effect list" where
  "retrieve_pages net [] base = ([], [])"
| "retrieve_pages net (link # links) base =
     (let (page, t) = retrieve_page net link base;
          (pages, ts) = retrieve_pages net links base
      in (page # pages, t @ ts))"

section \<open>Domain extraction and the cache key\<close>

text \<open>
  \<^verbatim>\<open>re.match(r'https?://(www\.)?(.+)\..+', url)\<close>, piece by piece, in the order in which
  the backtracking matcher of \<^verbatim>\<open>re\<close> tries the alternatives. The match is anchored at the
  start of the string only. A dot of the pattern matches every character but the
  newline.
\<close>

definition newline :: char where
  "newline = CHR 0x0A"

text \<open>\<^verbatim>\<open>https?://\<close>: the rest of the string after the scheme, the optional \<^verbatim>\<open>s\<close> tried first.\<close>

definition match_scheme :: "string \<Rightarrow> string option" where
  "match_scheme url =
     (if prefix ''https://'' url then Some (drop 8 url)
      else if prefix ''http://'' url then Some (drop 7 url)
      else None)"

text \<open>\<^verbatim>\<open>\..+\<close> at the start of a string: a dot, then at least one character that is no newline.\<close>

fun match_suffix :: "string \<Rightarrow> bool" where
  "match_suffix (c # d # _) = (c = CHR ''.'' \<and> d \<noteq> newline)"
| "match_suffix _ = False"

text \<open>
  \<^verbatim>\<open>(.+)\..+\<close>: the group is greedy, so it first takes \<open>n\<close> characters, as many as there
  are before the first newline, and gives them back one at a time until the rest of
  the pattern matches. It keeps at least one character.
\<close>

fun backtrack :: "string \<Rightarrow> nat \<Rightarrow> string option" where
  "backtrack s 0 = None"
| "backtrack s (Suc n) =
     (if match_suffix (drop (Suc n) s) then Some (take (Suc n) s) else backtrack s n)"

definition match_host :: "string \<Rightarrow> string option" where
  "match_host s = backtrack s (length (takeWhile (\<lambda>c. c \<noteq> newline) s))"

text \<open>
  The whole pattern; the result is \<^verbatim>\<open>m.group(2)\<close>, or \<open>None\<close> when there is no match.
  \<^verbatim>\<open>(www\.)?\<close> is greedy too: the matcher first consumes a leading \<^verbatim>\<open>www.\<close>, and
  retries without consuming it when the rest does not match.
\<close>

definition re_match_group2 :: "string \<Rightarrow> string option" where
  "re_match_group2 url =
     (case match_scheme url of
        None \<Rightarrow> None
      | Some r \<Rightarrow>
          (case (if prefix ''www.'' r then match_host (drop 4 r) else None) of
             Some g \<Rightarrow> Some g
           | None \<Rightarrow> match_host r))"

text \<open>
  \<^verbatim>\<open>
  def get_domain(url):
      m = re.match(r'https?://(www\.)?(.+)\..+', url)
      return m.group(2)
  \<close>
\<close>

definition get_domain :: "string \<Rightarrow> error + string" where
  "get_domain url =
     (case re_match_group2 url of
        None \<Rightarrow> Inl AttributeError
      | Some g \<Rightarrow> Inr g)"

text \<open>\<^verbatim>\<open>cache_fname = '{domain}.json'.format(domain=get_domain(url))\<close>, line 121.\<close>

definition cacheKey :: "string \<Rightarrow> error + string" where
  "cacheKey url =
     (case get_domain url of
        Inl e \<Rightarrow> Inl e
      | Inr domain \<Rightarrow> Inr (domain @ ''.json''))"

section \<open>Crawl orchestrator\<close>

text \<open>
  What \<^verbatim>\<open>follow_links\<close> takes from outside the program:
  \<^item> \<open>net\<close>: the network, as in \<open>retrieve_page\<close>;
  \<^item> \<open>get_links\<close>: \<^verbatim>\<open>get_links(content)\<close>, the \<^verbatim>\<open>href\<close> of every anchor that the HTML
    parser of BeautifulSoup finds, \<open>None\<close> for an anchor without one;
  \<^item> \<open>files\<close>: the cache files of the working directory, each with the page list that
    \<^verbatim>\<open>json.load\<close> reads from it; \<^verbatim>\<open>os.path.isfile\<close> holds of the names in its domain;
  \<^item> \<open>writable\<close>: whether \<^verbatim>\<open>open(name, 'w')\<close> succeeds.
\<close>

record world =
  net :: "string \<Rightarrow> string + string"
  get_links :: "string \<Rightarrow> string option list"
  files :: "string \<rightharpoonup> string list"
  writable :: "string \<Rightarrow> bool"

text \<open>
  \<^verbatim>\<open>follow_links(url)\<close>, lines 118-138. The result is the page list or the exception,
  the cache files afterwards, and the effects in order.
\<close>

definition follow_links ::
  "world \<Rightarrow> string \<Rightarrow> (error + string list) \<times> (string \<rightharpoonup> string list) \<times> effect list" where
  "follow_links w url =
     (case cacheKey url of
        Inl e \<Rightarrow> (Inl e, files w, [])
      | Inr cache_fname \<Rightarrow>
          (case files w cache_fname of
             Some pages \<Rightarrow>
               (Inr pages, files w,
                [Print (''[*] Loading from cache file '' @ cache_fname), ReadFile cache_fname])
           | None \<Rightarrow>
               (let (content, t1) = retrieve_page (net w) (Some url) url;
                    links = get_links w content;
                    (pages, t2) = retrieve_pages (net w) links url;
                    t3 = [Print (''[*] Saving cache file '' @ cache_fname)]
                in if writable w cache_fname
                   then (Inr pages, (files w)(cache_fname \<mapsto> pages),
                         t1 @ t2 @ t3 @ [WriteFile cache_fname pages])
                   else (Inl OSError, files w, t1 @ t2 @ t3))))"

section \<open>Word normalizer\<close>

text \<open>
  Strings are lists of \<open>char\<close>, read as the code points below 256 (ASCII and Latin-1).

  \<^verbatim>\<open>s.split(sep)\<close> with a one-character separator: every occurrence of the separator
  ends a piece, so two separators in a row give an empty piece and the empty string
  gives one empty piece.
\<close>

fun split_on :: "char \<Rightarrow> string \<Rightarrow> string list" where
  "split_on sep [] = [[]]"
| "split_on sep (c # cs) =
     (if c = sep then [] # split_on sep cs
      else (case split_on sep cs of
              w # ws \<Rightarrow> (c # w) # ws
            | [] \<Rightarrow> [[c]]))"

text \<open>\<^verbatim>\<open>string.punctuation\<close>, the 32 ASCII punctuation characters.\<close>

definition punctuation :: string where
  "punctuation =
     ''!'' @ [CHR 0x22] @ ''#$%&'' @ [CHR 0x27] @ ''()*+,-./:;<=>?@['' @ [CHR 0x5C] @ '']^_`{|}~''"

text \<open>
  \<^verbatim>\<open>w.lower()\<close> on code points below 256: the letters A-Z, and the Latin-1 capitals
  0xC0-0xDE without the multiplication sign 0xD7, move up by 32; the rest stays.
\<close>

definition lower_char :: "char \<Rightarrow> char" where
  "lower_char c =
     (let n = (of_char c :: nat)
      in if (65 \<le> n \<and> n \<le> 90) \<or> (192 \<le> n \<and> n \<le> 222 \<and> n \<noteq> 215)
         then char_of (n + 32) else c)"

definition lower :: "string \<Rightarrow> string" where
  "lower w = map lower_char w"

text \<open>
  \<^verbatim>\<open>create_word_list(elements, ignored_words)\<close>, lines 95-108: split every element on
  single spaces and concatenate, strip the punctuation of each word, lowercase, and
  keep the words longer than one character that are not ignored.
\<close>

definition create_word_list :: "string list \<Rightarrow> string set \<Rightarrow> string list" where
  "create_word_list elements ignored_words =
     (let word_list = concat (map (split_on CHR '' '') elements);
          removed_punctuation = map (filter (\<lambda>c. c \<notin> set punctuation)) word_list;
          lower_list = map lower removed_punctuation
      in filter (\<lambda>w. length w > 1 \<and> w \<notin> ignored_words) lower_list)"

section \<open>Frequency analyzer\<close>

text \<open>
  A Python float is an IEEE 754 double; the model holds its exact value as a rational.
  Rounding to the nearest integer, ties to the even one:
\<close>

definition round_half_even :: "rat \<Rightarrow> int" where
  "round_half_even x =
     (let f = \<lfloor>x\<rfloor>; d = x - of_int f
      in if d < 1 / 2 then f
         else if 1 / 2 < d then f + 1
         else if even f then f else f + 1)"

text \<open>
  The double nearest to \<open>a / b\<close> for \<open>0 \<le> a\<close> and \<open>0 < b\<close>, ties to even: the quotient
  is scaled by the power of two \<open>e\<close> that brings it into \<open>[2^52, 2^53)\<close>, rounded to
  an integer (the 53-bit significand) and scaled back. This is the double as long as
  the quotient is in the range of the normal doubles, \<open>2^-1022\<close> to \<open>2^1024\<close>, which
  holds of every quotient of two counts of a list that fits in memory.
\<close>

definition nearest_double :: "int \<Rightarrow> int \<Rightarrow> rat" where
  "nearest_double a b =
     (if a = 0 then 0
      else
        (let e0 = 52 + bitlen b - bitlen a;
             e = (if of_int a * 2 powi e0 < (2 ^ 52 * of_int b :: rat) then e0 + 1 else e0)
         in of_int (round_half_even (of_int a / of_int b * 2 powi e)) / 2 powi e))"

text \<open>
  \<^verbatim>\<open>a / b\<close> on two Python integers: the correctly rounded quotient, or
  \<^verbatim>\<open>ZeroDivisionError\<close>.
\<close>

definition py_truediv :: "int \<Rightarrow> int \<Rightarrow> error + rat" where
  "py_truediv a b =
     (if b = 0 then Inl ZeroDivisionError
      else Inr (of_int (sgn a * sgn b) * nearest_double \<bar>a\<bar> \<bar>b\<bar>))"

text \<open>
  \<^verbatim>\<open>round(x, ndigits)\<close> on a float, \<open>0 \<le> ndigits\<close>: the exact value of \<open>x\<close> is rounded
  to \<open>ndigits\<close> decimals, ties to even, and the decimal is converted back to the
  nearest double.
\<close>

definition py_round :: "rat \<Rightarrow> nat \<Rightarrow> rat" where
  "py_round x ndigits =
     (let n = round_half_even (x * 10 ^ ndigits)
      in of_int (sgn n) * nearest_double \<bar>n\<bar> (10 ^ ndigits))"

text \<open>
  The dictionary \<^verbatim>\<open>tf\<close> is an association list in insertion order, as a Python
  dictionary is. \<^verbatim>\<open>tf[word]\<close> on the \<^verbatim>\<open>defaultdict(int)\<close> reads 0 for a missing key.
\<close>

definition tf_get :: "(string \<times> int) list \<Rightarrow> string \<Rightarrow> int" where
  "tf_get tf word = (case map_of tf word of None \<Rightarrow> 0 | Some n \<Rightarrow> n)"

text \<open>
  The first loop of \<^verbatim>\<open>calculate_tf\<close>, lines 155-158, on the state \<open>(tf, max_freq)\<close>:
  \<^verbatim>\<open>
  for word in word_list:
      tf[word] += 1
      if tf[word] > max_freq:
          max_freq = tf[word]
  \<close>
\<close>

fun count_words :: "string list \<Rightarrow> (string \<times> int) list \<times> int \<Rightarrow> (string \<times> int) list \<times> int" where
  "count_words [] (tf, max_freq) = (tf, max_freq)"
| "count_words (word # word_list) (tf, max_freq) =
     (let tf' = AList.update word (tf_get tf word + 1) tf;
          max_freq' = (if tf_get tf' word > max_freq then tf_get tf' word else max_freq)
      in count_words word_list (tf', max_freq'))"

text \<open>
  The second loop, lines 160-161, over the items of \<^verbatim>\<open>tf\<close> in order. The keys of a
  dictionary are distinct and an entry is read before it is overwritten, so
  \<^verbatim>\<open>tf[word]\<close> is the \<^verbatim>\<open>freq\<close> of the item. The first division by zero ends the loop.
  \<^verbatim>\<open>
  for word, freq in tf.items():
      tf[word] = round(tf[word] / max_freq, 3)
  \<close>
\<close>

fun score_items :: "(string \<times> int) list \<Rightarrow> int \<Rightarrow> error + (string \<times> rat) list" where
  "score_items [] max_freq = Inr []"
| "score_items ((word, freq) # items) max_freq =
     (case py_truediv freq max_freq of
        Inl e \<Rightarrow> Inl e
      | Inr q \<Rightarrow>
          (case score_items items max_freq of
             Inl e \<Rightarrow> Inl e
           | Inr scored \<Rightarrow> Inr ((word, py_round q 3) # scored)))"

definition calculate_tf :: "string list \<Rightarrow> error + (string \<times> rat) list" where
  "calculate_tf word_list =
     (let (tf, max_freq) = count_words word_list ([], 0)
      in score_items tf max_freq)"

section \<open>Port argument parser\<close>

text \<open>
  \<^verbatim>\<open>int(s)\<close> on a string, base 10: white space around the literal is dropped, a sign
  may lead, and the digits may be grouped by single underscores between two digits.
  Everything else raises \<^verbatim>\<open>ValueError\<close>.
\<close>

definition is_space :: "char \<Rightarrow> bool" where
  "is_space c =
     (let n = (of_char c :: nat)
      in (9 \<le> n \<and> n \<le> 13) \<or> (28 \<le> n \<and> n \<le> 32) \<or> n = 133 \<or> n = 160)"

definition strip :: "string \<Rightarrow> string" where
  "strip s = rev (dropWhile is_space (rev (dropWhile is_space s)))"

definition is_digit :: "char \<Rightarrow> bool" where
  "is_digit c = (let n = (of_char c :: nat) in 48 \<le> n \<and> n \<le> 57)"

definition digit_value :: "char \<Rightarrow> int" where
  "digit_value c = int (of_char c) - 48"

fun parse_digits :: "string \<Rightarrow> int \<Rightarrow> int option" where
  "parse_digits [] acc = Some acc"
| "parse_digits (c # cs) acc =
     (if is_digit c then parse_digits cs (acc * 10 + digit_value c)
      else if c = CHR ''_'' then
        (case cs of
           [] \<Rightarrow> None
         | d # _ \<Rightarrow> if is_digit d then parse_digits cs acc else None)
      else None)"

definition parse_literal :: "string \<Rightarrow> int option" where
  "parse_literal s =
     (case s of
        [] \<Rightarrow> None
      | c # _ \<Rightarrow> if is_digit c then parse_digits s 0 else None)"

definition py_int :: "string \<Rightarrow> error + int" where
  "py_int s =
     (let t = strip s;
          (negative, body) =
            (case t of
               [] \<Rightarrow> (False, t)
             | c # r \<Rightarrow>
                 if c = CHR ''-'' then (True, r)
                 else if c = CHR ''+'' then (False, r)
                 else (False, t))
      in case parse_literal body of
           None \<Rightarrow> Inl ValueError
         | Some n \<Rightarrow> Inr (if negative then - n else n))"

text \<open>\<^verbatim>\<open>[int(port) for port in port_args]\<close>: the first string that is no integer raises.\<close>

fun py_ints :: "string list \<Rightarrow> error + int list" where
  "py_ints [] = Inr []"
| "py_ints (port # port_args) =
     (case py_int port of
        Inl e \<Rightarrow> Inl e
      | Inr n \<Rightarrow>
          (case py_ints port_args of
             Inl e \<Rightarrow> Inl e
           | Inr ns \<Rightarrow> Inr (n # ns)))"

text \<open>
  What \<^verbatim>\<open>parse_port\<close> returns: a list of integers, the object \<^verbatim>\<open>range(X, Y)\<close>, or a
  single integer.
\<close>

datatype ports = PortList "int list" | PortRange int int | PortInt int

text \<open>
  \<^verbatim>\<open>parse_port(port_args)\<close>, lines 23-33 of \<^verbatim>\<open>pscan.py\<close>.
  \<^verbatim>\<open>port_args[0].find('-') > -1\<close> holds when the string has a hyphen, and
  \<^verbatim>\<open>re.split('-', s)\<close> cuts at every hyphen.
\<close>

definition parse_port :: "string list \<Rightarrow> error + ports" where
  "parse_port port_args =
     (if length port_args > 1 then
        (case py_ints port_args of
           Inl e \<Rightarrow> Inl e
         | Inr ports \<Rightarrow> Inr (PortList ports))
      else
        (case port_args of
           [] \<Rightarrow> Inl IndexError
         | arg # _ \<Rightarrow>
             if CHR ''-'' \<in> set arg then
               (case split_on CHR ''-'' arg of
                  x # y # _ \<Rightarrow>
                    (case py_int x of
                       Inl e \<Rightarrow> Inl e
                     | Inr lo \<Rightarrow>
                         (case py_int y of
                            Inl e \<Rightarrow> Inl e
                          | Inr hi \<Rightarrow> Inr (PortRange lo hi)))
                | _ \<Rightarrow> Inl IndexError)
             else
               (case py_int arg of
                  Inl e \<Rightarrow> Inl e
                | Inr port \<Rightarrow> Inr (PortInt port))))"

section \<open>Properties of the data and sample environments\<close>

text \<open>
  What holds of every word that \<^verbatim>\<open>create_word_list\<close> returns: it has no space and no
  punctuation, it is its own lowercase form, it is longer than one character and it is
  not ignored.
\<close>

definition normalized_word :: "string set \<Rightarrow> string \<Rightarrow> bool" where
  "normalized_word ignored_words w \<longleftrightarrow>
     CHR '' '' \<notin> set w \<and> (\<forall>c \<in> set w. c \<notin> set punctuation) \<and> lower w = w \<and>
     1 < length w \<and> w \<notin> ignored_words"

text \<open>A network that answers every request with the same page, and one that refuses all.\<close>

definition serve :: "string \<Rightarrow> string + string" where
  "serve u = Inr ''<html></html>''"

definition refuse :: "string \<Rightarrow> string + string" where
  "refuse u = Inl ''Connection refused''"

text \<open>A working directory without cache files, on a network that serves pages without links.\<close>

definition fresh_world :: world where
  "fresh_world =
     \<lparr>net = serve, get_links = (\<lambda>content. []), files = Map.empty,
      writable = (\<lambda>name. True)\<rparr>"

section \<open>The page fetcher\<close>

text \<open>
  C2, as stated: for every base URL, \<^verbatim>\<open>retrieve_page\<close> on an empty or absent link target
  returns the empty string at once, without a request and without prepending the base.
  The guard of line 40 is \<^verbatim>\<open>url is None\<close>, so this holds of the absent target only.
  The empty string passes the guard and does not start with \<^verbatim>\<open>http\<close>, so line 44 makes
  it the base, which is then requested: on a network that serves pages, the empty
  target with the base \<^verbatim>\<open>http://ex.com\<close> returns a page after one request and one pause.
\<close>

theorem retrieve_page_empty_target_fetches_base:
  "retrieve_page serve (Some '''') ''http://ex.com'' =
     (''<html></html>'',
      [Print ''[+] Retrieving http://ex.com'', HttpGet ''http://ex.com'', Sleep 200])"
  by (simp add: retrieve_page_def resolve_def serve_def Let_def)

text \<open>
  C2, amended: for every network and every base URL, \<^verbatim>\<open>retrieve_page\<close> on an absent link
  target (\<^verbatim>\<open>None\<close>, an anchor without \<^verbatim>\<open>href\<close>) returns the empty string with no effect
  at all: nothing printed, no request, no pause.
\<close>

theorem retrieve_page_absent_target:
  "retrieve_page network None base = ('''', [])"
  by (simp add: retrieve_page_def)

text \<open>
  C3, as stated: every call that reaches the network pauses for 200 ms after the
  attempt, whether the request succeeded or raised. The handler of lines 49-52 returns
  before line 54: when the request raises, the two error lines are printed and there
  is no pause.
\<close>

theorem retrieve_page_error_no_sleep:
  "retrieve_page refuse (Some ''http://ex.com/x'') ''http://ex.com'' =
     ('''',
      [Print ''[+] Retrieving http://ex.com/x'', HttpGet ''http://ex.com/x'',
       Print ''[-] Error retrieving page content'', Print ''[-] Connection refused''])
   \<and> Sleep 200 \<notin> set (snd (retrieve_page refuse (Some ''http://ex.com/x'') ''http://ex.com''))"
  by (simp add: retrieve_page_def resolve_def refuse_def Let_def)

text \<open>
  C3, amended: every call with a present link target announces and issues one request
  for the resolved URL. When the request returns, the 200 ms pause follows it and the
  page is the result; when it raises, the two error lines follow it, there is no
  pause, and the result is the empty string.
\<close>

theorem retrieve_page_effects:
  "retrieve_page network (Some u) base =
     (case network (resolve u base) of
        Inr content \<Rightarrow>
          (content,
           [Print (''[+] Retrieving '' @ resolve u base), HttpGet (resolve u base), Sleep 200])
      | Inl msg \<Rightarrow>
          ('''',
           [Print (''[+] Retrieving '' @ resolve u base), HttpGet (resolve u base),
            Print ''[-] Error retrieving page content'', Print (''[-] '' @ msg)]))"
  by (simp add: retrieve_page_def Let_def split: sum.split)

text \<open>
  C4, as stated: a URL that has a scheme is left unchanged by the resolution of the
  fetcher. The test of line 43 is \<^verbatim>\<open>url.startswith('http')\<close>: a URL with another scheme,
  such as \<^verbatim>\<open>ftp://ex.com/f\<close>, gets the base prepended.
\<close>

theorem resolve_rewrites_ftp:
  "resolve ''ftp://ex.com/f'' ''http://ex.com'' = ''http://ex.comftp://ex.com/f''
   \<and> resolve ''ftp://ex.com/f'' ''http://ex.com'' \<noteq> ''ftp://ex.com/f''"
  by (simp add: resolve_def)

text \<open>
  C4, amended: for every URL \<open>u\<close> that starts with the four characters \<^verbatim>\<open>http\<close> and
  every base URL, the resolution of the fetcher leaves \<open>u\<close> unchanged, and \<open>u\<close> is the
  URL that \<^verbatim>\<open>retrieve_page\<close> requests.
\<close>

theorem resolve_http_unchanged:
  assumes "prefix ''http'' u"
  shows "resolve u base = u \<and>
         HttpGet u \<in> set (snd (retrieve_page network (Some u) base))"
  using assms by (simp add: resolve_def retrieve_page_def Let_def split: sum.split)

theorem resolve_http_unchanged_witness:
  "resolve ''https://ex.com/x'' ''http://base.org'' = ''https://ex.com/x'' \<and>
   HttpGet ''https://ex.com/x''
     \<in> set (snd (retrieve_page serve (Some ''https://ex.com/x'') ''http://base.org''))"
  using resolve_http_unchanged [of "''https://ex.com/x''" "''http://base.org''" serve]
  by simp

section \<open>The domain and the cache key\<close>

text \<open>
  C1: two URLs of one domain that differ in their path have the same cache file name.
  The docstring of \<^verbatim>\<open>get_domain\<close> promises the domain name without prefix and suffix,
  but the greedy group of the pattern runs to the last dot of the whole URL: a dot in
  the path brings the host suffix and the path into the result. The two pages
  \<^verbatim>\<open>http://ex.com/a.html\<close> and \<^verbatim>\<open>http://ex.com/b.html\<close> of the domain \<^verbatim>\<open>ex.com\<close> get
  two different cache file names, neither of them \<^verbatim>\<open>ex.json\<close>.
\<close>

theorem cacheKey_depends_on_path:
  "cacheKey ''http://ex.com/a.html'' = Inr ''ex.com/a.json''
   \<and> cacheKey ''http://ex.com/b.html'' = Inr ''ex.com/b.json''
   \<and> cacheKey ''http://ex.com/a.html'' \<noteq> cacheKey ''http://ex.com/b.html''"
  by (simp add: cacheKey_def get_domain_def re_match_group2_def match_scheme_def
      match_host_def newline_def)

text \<open>
  Where the path has no dot the cache key does not depend on it: the last dot that the
  group can stop at is then in the host. (The host here is the text between the scheme
  and the path; it must not end in a dot.)
\<close>

lemma match_suffix_path:
  assumes "CHR ''.'' \<notin> set p"
  shows "\<not> match_suffix (drop n p)"
proof (cases "drop n p" rule: match_suffix.cases)
  case (1 c d r)
  then have "c \<in> set (drop n p)" by simp
  then have "c \<in> set p" by (rule in_set_dropD)
  with assms have "c \<noteq> CHR ''.''" by auto
  with 1 show ?thesis by simp
qed simp_all

lemma match_suffix_append:
  assumes "CHR ''.'' \<notin> set p" and "h = [] \<or> last h \<noteq> CHR ''.''"
  shows "match_suffix (drop n h @ p) = match_suffix (drop n h)"
proof (cases "drop n h")
  case Nil
  with match_suffix_path [OF assms(1), of 0] show ?thesis by simp
next
  case (Cons c r)
  show ?thesis
  proof (cases r)
    case Nil
    with Cons have "drop n h = [c]" by simp
    with append_take_drop_id [of n h] have "h = take n h @ [c]" by simp
    then have "h \<noteq> []" "last h = c"
      by (auto dest: arg_cong [where f = last])
    with assms(2) have "c \<noteq> CHR ''.''" by simp
    with Cons Nil show ?thesis by (cases p) simp_all
  next
    case (Cons d r')
    with \<open>drop n h = c # r\<close> show ?thesis by simp
  qed
qed

lemma backtrack_in_host:
  assumes "CHR ''.'' \<notin> set p" and "h = [] \<or> last h \<noteq> CHR ''.''"
  shows "n \<le> length h \<Longrightarrow> backtrack (h @ p) n = backtrack h n"
proof (induction n)
  case 0
  show ?case by simp
next
  case (Suc n)
  then have "drop (Suc n) (h @ p) = drop (Suc n) h @ p" by simp
  with Suc match_suffix_append [OF assms, of "Suc n"] show ?case by simp
qed

lemma backtrack_in_path:
  assumes "CHR ''.'' \<notin> set p" and "h = [] \<or> last h \<noteq> CHR ''.''"
  shows "backtrack (h @ p) (length h + m) = backtrack h (length h)"
proof (induction m)
  case 0
  show ?case using backtrack_in_host [OF assms, of "length h"] by simp
next
  case (Suc m)
  have "drop (Suc (length h + m)) (h @ p) = drop (Suc m) p" by simp
  with match_suffix_path [OF assms(1), of "Suc m"] Suc show ?case by simp
qed

lemma match_host_path:
  assumes "CHR ''.'' \<notin> set p" and "h = [] \<or> last h \<noteq> CHR ''.''"
    and "newline \<notin> set h" and "newline \<notin> set p"
  shows "match_host (h @ p) = match_host h"
proof -
  have "takeWhile (\<lambda>c. c \<noteq> newline) (h @ p) = h @ p"
    using assms(3,4) by (auto intro: takeWhile_eq_all_conv [THEN iffD2])
  moreover have "takeWhile (\<lambda>c. c \<noteq> newline) h = h"
    using assms(3) by (auto intro: takeWhile_eq_all_conv [THEN iffD2])
  ultimately show ?thesis
    unfolding match_host_def using backtrack_in_path [OF assms(1,2), of "length p"]
    by (simp only: length_append)
qed

lemma www_prefix_host:
  assumes "CHR ''.'' \<notin> set p"
  shows "prefix ''www.'' (h @ p) = prefix ''www.'' h"
proof
  assume "prefix ''www.'' (h @ p)"
  then consider "prefix ''www.'' h" | us where "''www.'' = h @ us" "prefix us p"
    by (auto simp: prefix_append)
  then show "prefix ''www.'' h"
  proof cases
    case 1
    then show ?thesis .
  next
    case 2
    show ?thesis
    proof (cases "us = []")
      case True
      with 2 show ?thesis by simp
    next
      case False
      with 2(1) have "last us = CHR ''.''"
        by (auto dest: arg_cong [where f = last])
      moreover from False have "last us \<in> set us" by simp
      moreover from 2(2) have "set us \<subseteq> set p" by (rule set_mono_prefix)
      ultimately show ?thesis using assms by auto
    qed
  qed
next
  assume "prefix ''www.'' h"
  then show "prefix ''www.'' (h @ p)" by (rule prefix_prefix)
qed

lemma get_domain_ignores_dotless_path:
  assumes "CHR ''.'' \<notin> set p" and "newline \<notin> set p"
    and "h \<noteq> []" and "last h \<noteq> CHR ''.''" and "newline \<notin> set h"
  shows "get_domain (''http://'' @ h @ p) = get_domain (''http://'' @ h)"
    and "get_domain (''https://'' @ h @ p) = get_domain (''https://'' @ h)"
proof -
  have 1: "match_host (h @ p) = match_host h"
    using assms by (intro match_host_path) simp_all
  have 2: "match_host (drop 4 (h @ p)) = match_host (drop 4 h)" if "prefix ''www.'' h"
  proof -
    from that have len: "4 \<le> length h" by (auto simp: prefix_def)
    have "drop 4 h = [] \<or> last (drop 4 h) \<noteq> CHR ''.''"
      using assms(4) by (cases "drop 4 h = []") simp_all
    moreover have "newline \<notin> set (drop 4 h)" using assms(5) by (auto dest: in_set_dropD)
    ultimately have "match_host (drop 4 h @ p) = match_host (drop 4 h)"
      using assms(1,2) by (intro match_host_path)
    with len show ?thesis by simp
  qed
  have 4: "drop 4 (h @ p) = drop 4 h @ drop (4 - length h) p" by simp
  have 3: "prefix ''www.'' (h @ p) = prefix ''www.'' h"
    using assms(1) by (rule www_prefix_host)
  show "get_domain (''http://'' @ h @ p) = get_domain (''http://'' @ h)"
    using 1 2 3 by (simp add: get_domain_def re_match_group2_def match_scheme_def 4 [symmetric]
        del: drop_append split: option.split)
  show "get_domain (''https://'' @ h @ p) = get_domain (''https://'' @ h)"
    using 1 2 3 by (simp add: get_domain_def re_match_group2_def match_scheme_def 4 [symmetric]
        del: drop_append split: option.split)
qed

lemma match_scheme_None:
  "\<not> prefix ''http://'' url \<Longrightarrow> \<not> prefix ''https://'' url \<Longrightarrow> match_scheme url = None"
  by (simp add: match_scheme_def)

lemma get_domain_without_scheme:
  "\<not> prefix ''http://'' url \<Longrightarrow> \<not> prefix ''https://'' url \<Longrightarrow>
     get_domain url = Inl DomainParseError"
  by (simp add: get_domain_def re_match_group2_def match_scheme_None)

text \<open>
  C9: for every seed URL that starts with neither \<^verbatim>\<open>http://\<close> nor \<^verbatim>\<open>https://\<close>,
  \<^verbatim>\<open>follow_links\<close> raises the error of the domain extraction while it computes the cache
  file name: the cache files are untouched and there is no effect, so no request has
  been issued. This holds in every environment.
\<close>

theorem follow_links_no_scheme:
  assumes "\<not> prefix ''http://'' url" and "\<not> prefix ''https://'' url"
  shows "follow_links w url = (Inl DomainParseError, files w, [])"
  using assms by (simp add: follow_links_def cacheKey_def get_domain_without_scheme)

theorem follow_links_no_scheme_witness:
  "follow_links fresh_world ''http:/ex.com'' = (Inl DomainParseError, files fresh_world, [])"
  using follow_links_no_scheme [of "''http:/ex.com''" fresh_world]
  by simp

lemma backtrack_no_dot: "CHR ''.'' \<notin> set s \<Longrightarrow> backtrack s n = None"
proof (induction n)
  case 0
  show ?case by simp
next
  case (Suc n)
  have "\<not> match_suffix (drop (Suc n) s)"
  proof (cases "drop (Suc n) s" rule: match_suffix.cases)
    case (1 c d r)
    then have "c \<in> set (drop (Suc n) s)" by simp
    then have "c \<in> set s" by (rule in_set_dropD)
    with Suc.prems have "c \<noteq> CHR ''.''" by auto
    with 1 show ?thesis by simp
  qed simp_all
  with Suc show ?case by simp
qed

lemma match_host_no_dot: "CHR ''.'' \<notin> set s \<Longrightarrow> match_host s = None"
  by (simp add: match_host_def backtrack_no_dot)

lemma no_dot_no_www: "CHR ''.'' \<notin> set s \<Longrightarrow> \<not> prefix ''www.'' s"
  by (auto simp: prefix_def)

text \<open>
  C10, as stated: the domain extraction fails on every URL whose part after the scheme
  and the optional \<^verbatim>\<open>www.\<close> has no dot. When the pattern does not match with \<^verbatim>\<open>www.\<close>
  consumed by the optional group, the matcher retries with the group empty, and then
  \<^verbatim>\<open>www\<close> is the host and its dot the separator: \<^verbatim>\<open>http://www.localhost\<close>, whose part
  after \<^verbatim>\<open>http://www.\<close> has no dot, has the domain \<^verbatim>\<open>www\<close>.
\<close>

theorem get_domain_www_localhost:
  "get_domain ''http://www.localhost'' = Inr ''www''"
  by (simp add: get_domain_def re_match_group2_def match_scheme_def match_host_def newline_def)

text \<open>
  C10, amended: there are URLs that start with \<^verbatim>\<open>http://\<close> or \<^verbatim>\<open>https://\<close> on which the
  domain extraction still fails, namely every URL whose part after the scheme has no
  dot at all, such as \<^verbatim>\<open>http://localhost\<close>; a well-formed scheme prefix alone does not
  give a cache key.
\<close>

theorem get_domain_no_dot:
  assumes "CHR ''.'' \<notin> set rest"
  shows "get_domain (''http://'' @ rest) = Inl DomainParseError \<and>
         get_domain (''https://'' @ rest) = Inl DomainParseError"
  using assms
  by (simp add: get_domain_def re_match_group2_def match_scheme_def match_host_no_dot
      no_dot_no_www)

theorem get_domain_no_dot_witness:
  "get_domain ''http://localhost'' = Inl DomainParseError \<and>
   get_domain ''https://localhost'' = Inl DomainParseError"
  using get_domain_no_dot [of "''localhost''"]
  by simp

section \<open>The word normalizer\<close>

lemma split_on_no_sep: "sep \<notin> set w \<Longrightarrow> split_on sep w = [w]"
  by (induction w) auto

lemma split_on_pieces: "w \<in> set (split_on sep s) \<Longrightarrow> sep \<notin> set w"
proof (induction s arbitrary: w)
  case Nil
  then show ?case by simp
next
  case (Cons c cs)
  show ?case
  proof (cases "c = sep")
    case True
    with Cons show ?thesis by auto
  next
    case False
    show ?thesis
    proof (cases "split_on sep cs")
      case Nil
      with Cons.prems False show ?thesis by simp
    next
      case (Cons v vs)
      with Cons.prems False have "w = c # v \<or> w \<in> set vs" by simp
      moreover have "sep \<notin> set v" "\<And>u. u \<in> set vs \<Longrightarrow> sep \<notin> set u"
        using Cons.IH Cons by simp_all
      ultimately show ?thesis using False by auto
    qed
  qed
qed

lemma punctuation_codes:
  "c \<in> set punctuation \<Longrightarrow>
     (33 \<le> (of_char c :: nat) \<and> (of_char c :: nat) \<le> 47) \<or>
     (58 \<le> (of_char c :: nat) \<and> (of_char c :: nat) \<le> 64) \<or>
     (91 \<le> (of_char c :: nat) \<and> (of_char c :: nat) \<le> 96) \<or>
     (123 \<le> (of_char c :: nat) \<and> (of_char c :: nat) \<le> 126)"
  by (auto simp: punctuation_def)

lemma lower_char_code:
  "(of_char (lower_char c) :: nat) =
     (if (65 \<le> (of_char c :: nat) \<and> (of_char c :: nat) \<le> 90) \<or>
         (192 \<le> (of_char c :: nat) \<and> (of_char c :: nat) \<le> 222 \<and> (of_char c :: nat) \<noteq> 215)
      then of_char c + 32 else of_char c)"
  by (auto simp: lower_char_def Let_def)

lemma lower_char_fixed:
  "\<not> ((65 \<le> (of_char d :: nat) \<and> (of_char d :: nat) \<le> 90) \<or>
       (192 \<le> (of_char d :: nat) \<and> (of_char d :: nat) \<le> 222 \<and> (of_char d :: nat) \<noteq> 215))
   \<Longrightarrow> lower_char d = d"
  by (auto simp: lower_char_def Let_def)

lemma lower_char_idem: "lower_char (lower_char c) = lower_char c"
proof (rule lower_char_fixed)
  let ?n = "of_char (lower_char c) :: nat"
  show "\<not> ((65 \<le> ?n \<and> ?n \<le> 90) \<or> (192 \<le> ?n \<and> ?n \<le> 222 \<and> ?n \<noteq> 215))"
    unfolding lower_char_code by (auto split: if_splits)
qed

lemma lower_char_not_punctuation:
  assumes "c \<notin> set punctuation"
  shows "lower_char c \<notin> set punctuation"
proof
  assume p: "lower_char c \<in> set punctuation"
  show False
  proof (cases "lower_char c = c")
    case True
    with p assms show ?thesis by simp
  next
    case False
    then have "(65 \<le> (of_char c :: nat) \<and> (of_char c :: nat) \<le> 90) \<or>
         (192 \<le> (of_char c :: nat) \<and> (of_char c :: nat) \<le> 222 \<and> (of_char c :: nat) \<noteq> 215)"
      by (auto simp: lower_char_def Let_def split: if_splits)
    then have "(97 \<le> (of_char (lower_char c) :: nat) \<and> (of_char (lower_char c) :: nat) \<le> 122) \<or>
        192 \<le> (of_char (lower_char c) :: nat)"
      unfolding lower_char_code by auto
    with punctuation_codes [OF p] show False by arith
  qed
qed

lemma lower_char_space: "lower_char c = CHR '' '' \<Longrightarrow> c = CHR '' ''"
proof -
  assume a: "lower_char c = CHR '' ''"
  then have "(of_char (lower_char c) :: nat) = 32" by simp
  then have "lower_char c = c"
    unfolding lower_char_code by (auto simp: lower_char_def Let_def split: if_splits)
  with a show ?thesis by simp
qed


lemma lower_idem: "lower (lower w) = lower w"
  by (simp add: lower_def lower_char_idem)

lemma create_word_list_fixed:
  assumes "\<forall>w \<in> set ws. normalized_word ignored w"
  shows "create_word_list ws ignored = ws"
proof -
  have 1: "concat (map (split_on CHR '' '') ws) = ws"
    using assms by (induction ws) (simp_all add: normalized_word_def split_on_no_sep)
  have 2: "map (filter (\<lambda>c. c \<notin> set punctuation)) ws = ws"
    using assms by (induction ws) (simp_all add: normalized_word_def)
  have 3: "map lower ws = ws"
    using assms by (induction ws) (simp_all add: normalized_word_def)
  have 4: "filter (\<lambda>w. length w > 1 \<and> w \<notin> ignored) ws = ws"
    using assms by (induction ws) (simp_all add: normalized_word_def)
  show ?thesis
    unfolding create_word_list_def Let_def by (simp only: 1 2 3 4)
qed

lemma create_word_list_output:
  assumes "w \<in> set (create_word_list elements ignored)"
  shows "normalized_word ignored w"
proof -
  from assms obtain e p where e: "e \<in> set elements" and p: "p \<in> set (split_on CHR '' '' e)"
    and w: "w = lower (filter (\<lambda>c. c \<notin> set punctuation) p)"
    and len: "1 < length w" and ign: "w \<notin> ignored"
    by (auto simp: create_word_list_def)
  from p have nsp: "CHR '' '' \<notin> set p" by (rule split_on_pieces)
  have "CHR '' '' \<notin> set w"
  proof
    assume "CHR '' '' \<in> set w"
    then obtain c where c: "c \<in> set p" and "lower_char c = CHR '' ''"
      by (auto simp: w lower_def)
    then have "c = CHR '' ''" by (simp add: lower_char_space)
    with c nsp show False by simp
  qed
  moreover have "\<forall>c \<in> set w. c \<notin> set punctuation"
    by (auto simp: w lower_def lower_char_not_punctuation)
  moreover have "lower w = w"
    by (simp add: w lower_idem)
  ultimately show ?thesis
    using len ign by (simp add: normalized_word_def)
qed

text \<open>
  C8: \<^verbatim>\<open>create_word_list\<close> is idempotent: applied to its own result with the same ignore
  set, it returns that result. This holds of every list of text blocks and every
  ignore set, so in particular of the token lists whose tokens are already lowercase,
  free of punctuation, longer than one character and outside the ignore set (such a
  token may still contain spaces, at which the first application splits it).
\<close>

theorem create_word_list_idempotent:
  "create_word_list (create_word_list elements ignored) ignored = create_word_list elements ignored"
  by (rule create_word_list_fixed) (simp add: create_word_list_output)

section \<open>The frequency analyzer\<close>

text \<open>
  The scaling of \<open>nearest_double\<close> brings the quotient into \<open>[2^52, 2^53)\<close>, so the
  integer it is rounded to is a significand of 53 bits (or \<open>2^53\<close>, the next power of
  two).
\<close>

lemma bitlen_frac:
  assumes "0 < a"
  shows "1 / 2 \<le> (of_int a :: rat) / 2 powi bitlen a" "(of_int a :: rat) / 2 powi bitlen a < 1"
proof -
  from assms have l: "1 \<le> bitlen a" by (simp add: bitlen_alt_def)
  from bitlen_bounds [OF assms] have lo: "2 ^ nat (bitlen a - 1) \<le> a" and hi: "a < 2 ^ nat (bitlen a)"
    by simp_all
  have p: "(2::rat) powi bitlen a = 2 ^ nat (bitlen a)"
    using l by (simp add: power_int_def)
  have q: "(2::rat) ^ nat (bitlen a) = 2 * 2 ^ nat (bitlen a - 1)"
    using l by (metis Suc_nat_eq_nat_zadd1 add.commute diff_add_cancel diff_ge_0_iff_ge power_Suc)
  from lo have "(of_int (2 ^ nat (bitlen a - 1)) :: rat) \<le> of_int a" by (simp only: of_int_le_iff)
  then have lo': "(2::rat) ^ nat (bitlen a - 1) \<le> of_int a" by simp
  from hi have "(of_int a :: rat) < of_int (2 ^ nat (bitlen a))" by (simp only: of_int_less_iff)
  then have hi': "(of_int a :: rat) < 2 ^ nat (bitlen a)" by simp
  show "1 / 2 \<le> (of_int a :: rat) / 2 powi bitlen a"
    unfolding p q using lo' by (simp add: field_simps)
  show "(of_int a :: rat) / 2 powi bitlen a < 1"
    unfolding p using hi' by simp
qed

lemma nearest_double_scale:
  fixes a b :: int
  assumes "0 < a" "0 < b"
  defines "e0 \<equiv> 52 + bitlen b - bitlen a"
  defines "e \<equiv> (if of_int a * 2 powi e0 < (2 ^ 52 * of_int b :: rat) then e0 + 1 else e0)"
  shows "2 ^ 52 \<le> (of_int a / of_int b :: rat) * 2 powi e \<and>
         (of_int a / of_int b :: rat) * 2 powi e < 2 ^ 53"
proof -
  define x where "x = (of_int a :: rat) / 2 powi bitlen a"
  define y where "y = (of_int b :: rat) / 2 powi bitlen b"
  have x: "1 / 2 \<le> x" "x < 1" unfolding x_def using bitlen_frac [OF assms(1)] by simp_all
  have y: "1 / 2 \<le> y" "y < 1" unfolding y_def using bitlen_frac [OF assms(2)] by simp_all
  define r where "r = x / y"
  have ypos: "0 < y" using y by simp
  have r: "1 / 2 < r" "r < 2"
    unfolding r_def using x y ypos by (simp_all add: field_simps)
  have v: "(of_int a / of_int b :: rat) * 2 powi e0 = r * 2 ^ 52"
    unfolding r_def x_def y_def e0_def
    by (simp add: power_int_add power_int_diff field_simps)
  have b: "(0::rat) < of_int b" using assms by simp
  have c: "(of_int a * 2 powi e0 < (2 ^ 52 * of_int b :: rat)) = (r * 2 ^ 52 < 2 ^ 52)"
    unfolding v [symmetric] using b by (simp add: field_simps)
  have s: "(2::rat) powi (e0 + 1) = 2 powi e0 * 2"
    by (simp add: power_int_add)
  show ?thesis
  proof (cases "r * 2 ^ 52 < 2 ^ 52")
    case True
    then have e: "e = e0 + 1" unfolding e_def c by (simp only: if_True)
    have "(of_int a / of_int b :: rat) * 2 powi e = (of_int a / of_int b * 2 powi e0) * 2"
      unfolding e s by (simp only: mult.assoc)
    then have "(of_int a / of_int b :: rat) * 2 powi e = r * 2 ^ 52 * 2"
      by (simp only: v)
    with True r show ?thesis by simp
  next
    case False
    then have e: "e = e0" unfolding e_def c by (simp only: if_False)
    from False r show ?thesis unfolding e v by simp
  qed
qed

lemma round_half_even_le_ceiling: "round_half_even x \<le> \<lceil>x\<rceil>"
proof -
  have "\<lfloor>x\<rfloor> \<le> \<lceil>x\<rceil>" by (rule floor_le_ceiling)
  moreover have "\<lfloor>x\<rfloor> + 1 \<le> \<lceil>x\<rceil>" if "1 / 2 \<le> x - of_int \<lfloor>x\<rfloor>"
  proof -
    from that have "of_int \<lfloor>x\<rfloor> < x" by simp
    then have "\<lfloor>x\<rfloor> < \<lceil>x\<rceil>" by (simp add: less_ceiling_iff)
    then show ?thesis by simp
  qed
  ultimately show ?thesis
    by (auto simp: round_half_even_def Let_def)
qed

lemma round_half_even_le: "x \<le> of_int n \<Longrightarrow> round_half_even x \<le> n"
  using round_half_even_le_ceiling [of x] by (simp add: ceiling_le_iff order_trans[of _ "\<lceil>x\<rceil>"] ceiling_le)

lemma round_half_even_of_int: "round_half_even (of_int n) = n"
  by (simp add: round_half_even_def)

lemma round_half_even_nonneg: "0 \<le> x \<Longrightarrow> 0 \<le> round_half_even x"
  by (auto simp: round_half_even_def Let_def)

lemma bitlen_mono: "a \<le> b \<Longrightarrow> bitlen a \<le> bitlen b"
  by (simp add: bitlen_def floorlog_mono nat_mono)

lemma powi_nat: "0 \<le> e \<Longrightarrow> (2::rat) powi e = 2 ^ nat e"
  by (simp add: power_int_def)

lemma nearest_double_nonneg:
  assumes "0 \<le> a" "0 < b"
  shows "0 \<le> nearest_double a b"
proof -
  have "0 \<le> of_int (round_half_even (of_int a / of_int b * 2 powi e)) / (2::rat) powi e" for e
    using assms by (intro divide_nonneg_nonneg) (simp_all add: round_half_even_nonneg)
  then show ?thesis
    by (simp add: nearest_double_def Let_def)
qed

lemma scaled_round_le_1:
  assumes "0 \<le> a" "a \<le> b" "0 < b" "0 \<le> e"
  shows "of_int (round_half_even (of_int a / of_int b * 2 powi e)) / (2::rat) powi e \<le> 1"
proof -
  have "(of_int a / of_int b :: rat) \<le> 1" using assms by simp
  then have "(of_int a / of_int b :: rat) * 2 ^ nat e \<le> 1 * 2 ^ nat e"
    by (intro mult_right_mono) simp_all
  then have "(of_int a / of_int b :: rat) * 2 ^ nat e \<le> of_int (2 ^ nat e)" by simp
  then have "round_half_even (of_int a / of_int b * 2 ^ nat e) \<le> 2 ^ nat e"
    by (rule round_half_even_le)
  then have "(of_int (round_half_even (of_int a / of_int b * 2 ^ nat e)) :: rat) \<le> of_int (2 ^ nat e)"
    by (simp only: of_int_le_iff)
  then have "(of_int (round_half_even (of_int a / of_int b * 2 ^ nat e)) :: rat) / 2 ^ nat e \<le> 1"
    by (simp add: divide_le_eq)
  then show ?thesis
    using \<open>0 \<le> e\<close> by (simp add: powi_nat)
qed

lemma nearest_double_le_1:
  assumes "0 \<le> a" "a \<le> b" "0 < b"
  shows "nearest_double a b \<le> 1"
proof (cases "a = 0")
  case True
  then show ?thesis by (simp add: nearest_double_def)
next
  case False
  define e0 where "e0 = 52 + bitlen b - bitlen a"
  define e where "e = (if of_int a * 2 powi e0 < (2 ^ 52 * of_int b :: rat) then e0 + 1 else e0)"
  have "bitlen a \<le> bitlen b" using assms by (simp add: bitlen_mono)
  then have e: "0 \<le> e" by (simp add: e_def e0_def)
  have "nearest_double a b =
      of_int (round_half_even (of_int a / of_int b * 2 powi e)) / 2 powi e"
    unfolding nearest_double_def e_def e0_def Let_def using False by (simp only: if_False)
  also have "\<dots> \<le> 1"
    using assms e by (rule scaled_round_le_1)
  finally show ?thesis .
qed

lemma nearest_double_self:
  assumes "0 < a"
  shows "nearest_double a a = 1"
proof -
  have "round_half_even (2 ^ 52) = 2 ^ 52"
    using round_half_even_of_int [of "2 ^ 52"] by simp
  then show ?thesis
    using assms by (simp add: nearest_double_def Let_def powi_nat)
qed

lemma py_round_le_1:
  assumes "0 \<le> q" "q \<le> 1"
  shows "py_round q 3 \<le> 1"
proof -
  define n where "n = round_half_even (q * 10 ^ 3)"
  have r: "py_round q 3 = of_int (sgn n) * nearest_double \<bar>n\<bar> (10 ^ 3)"
    unfolding py_round_def n_def Let_def ..
  have "q * 10 ^ 3 \<le> of_int 1000" using assms by simp
  then have le: "n \<le> 1000" unfolding n_def by (rule round_half_even_le)
  have ge: "0 \<le> n" unfolding n_def using assms by (intro round_half_even_nonneg) simp
  show ?thesis
  proof (cases "n = 0")
    case True
    then show ?thesis by (simp add: r)
  next
    case False
    with ge have "0 < n" by simp
    then have "py_round q 3 = nearest_double n 1000"
      by (simp add: r)
    also have "\<dots> \<le> 1" using ge le by (intro nearest_double_le_1) simp_all
    finally show ?thesis .
  qed
qed

lemma py_round_1: "py_round 1 3 = 1"
proof -
  have "round_half_even 1000 = 1000"
    using round_half_even_of_int [of 1000] by simp
  then show ?thesis
    using nearest_double_self [of 1000] by (simp add: py_round_def)
qed

lemma tf_get_update:
  "tf_get (AList.update k v tf) w = (if w = k then v else tf_get tf w)"
  by (simp add: tf_get_def update_conv')

lemma count_words_get:
  "count_words ws (tf, m) = (tf', m') \<Longrightarrow>
     tf_get tf' w = tf_get tf w + int (count_list ws w)"
proof (induction ws arbitrary: tf m)
  case Nil
  then show ?case by simp
next
  case (Cons word ws)
  then show ?case
    by (simp add: Let_def tf_get_update del: AList.update.simps split: if_splits) 
qed

lemma count_words_dom:
  "count_words ws (tf, m) = (tf', m') \<Longrightarrow>
     dom (map_of tf') = dom (map_of tf) \<union> set ws"
proof (induction ws arbitrary: tf m)
  case Nil
  then show ?case by simp
next
  case (Cons word ws)
  from Cons.prems obtain m1 where
    "count_words ws (AList.update word (tf_get tf word + 1) tf, m1) = (tf', m')"
    by (simp add: Let_def)
  from Cons.IH [OF this] show ?case
    by (auto simp: update_conv' split: if_splits)
qed

lemma count_words_max_ge:
  "count_words ws (tf, m) = (tf', m') \<Longrightarrow>
     m \<le> m' \<and> (\<forall>w \<in> set ws. tf_get tf' w \<le> m')"
proof (induction ws arbitrary: tf m)
  case Nil
  then show ?case by simp
next
  case (Cons word ws)
  define tf1 where "tf1 = AList.update word (tf_get tf word + 1) tf"
  define m1 where "m1 = (if tf_get tf1 word > m then tf_get tf1 word else m)"
  from Cons.prems have step: "count_words ws (tf1, m1) = (tf', m')"
    unfolding tf1_def m1_def by (simp only: count_words.simps Let_def)
  from Cons.IH [OF step] have ih: "m1 \<le> m'" "\<forall>w \<in> set ws. tf_get tf' w \<le> m'"
    by simp_all
  have "m \<le> m1" "tf_get tf1 word \<le> m1" by (simp_all add: m1_def)
  moreover have "tf_get tf' word \<le> m'"
  proof (cases "word \<in> set ws")
    case True
    with ih show ?thesis by simp
  next
    case False
    then have "count_list ws word = 0" by (simp add: count_list_0_iff) 
    with count_words_get [OF step, of word] have "tf_get tf' word = tf_get tf1 word" by simp
    with \<open>tf_get tf1 word \<le> m1\<close> ih show ?thesis by simp
  qed
  ultimately show ?case using ih by auto
qed

lemma count_words_max_le:
  "count_words ws (tf, m) = (tf', m') \<Longrightarrow>
     m' = m \<or> (\<exists>w \<in> set ws. m' \<le> tf_get tf' w)"
proof (induction ws arbitrary: tf m)
  case Nil
  then show ?case by simp
next
  case (Cons word ws)
  define tf1 where "tf1 = AList.update word (tf_get tf word + 1) tf"
  define m1 where "m1 = (if tf_get tf1 word > m then tf_get tf1 word else m)"
  from Cons.prems have step: "count_words ws (tf1, m1) = (tf', m')"
    unfolding tf1_def m1_def by (simp only: count_words.simps Let_def)
  from Cons.IH [OF step] consider "m' = m1" | "\<exists>w \<in> set ws. m' \<le> tf_get tf' w"
    by auto
  then show ?case
  proof cases
    case 1
    have "tf_get tf1 word \<le> tf_get tf' word"
      using count_words_get [OF step, of word] by simp
    with 1 show ?thesis by (auto simp: m1_def)
  next
    case 2
    then show ?thesis by auto
  qed
qed

lemma score_items_map:
  "max_freq \<noteq> 0 \<Longrightarrow>
     score_items tf max_freq =
       Inr (map (\<lambda>(word, freq).
             (word, py_round (of_int (sgn freq * sgn max_freq) * nearest_double \<bar>freq\<bar> \<bar>max_freq\<bar>) 3)) tf)"
  by (induction tf max_freq rule: score_items.induct) (simp_all add: py_truediv_def)

lemma score_le_1:
  assumes "0 < c" "c \<le> k"
  shows "py_round (nearest_double c k) 3 \<le> 1"
  using assms by (intro py_round_le_1 nearest_double_nonneg nearest_double_le_1) simp_all

text \<open>
  C5: on the empty token stream \<^verbatim>\<open>calculate_tf\<close> returns the empty mapping and raises
  no \<^verbatim>\<open>ZeroDivisionError\<close>, although \<^verbatim>\<open>max_freq\<close> is 0 after the first loop: the second
  loop runs over the items of the empty dictionary, so no division is evaluated.
\<close>

theorem calculate_tf_empty:
  "count_words [] ([], 0) = ([], 0) \<and> calculate_tf [] = Inr []"
  by (simp add: calculate_tf_def)

text \<open>
  C7: in a token stream where the token \<open>t\<close> occurs \<open>k\<close> times and every other token
  fewer than \<open>k\<close> times, \<^verbatim>\<open>calculate_tf\<close> returns a mapping (it raises nothing) that gives
  \<open>t\<close> the score 1 and every other token \<open>w\<close> of the stream the score
  \<^verbatim>\<open>round(count / k, 3)\<close>, the float division and the float rounding of Python, which is
  at most 1.
\<close>

theorem calculate_tf_scores:
  assumes k: "k = int (count_list word_list t)"
    and less: "\<forall>w. w \<noteq> t \<longrightarrow> int (count_list word_list w) < k"
  shows "\<exists>tf. calculate_tf word_list = Inr tf \<and> map_of tf t = Some 1 \<and>
           (\<forall>w \<in> set word_list. w \<noteq> t \<longrightarrow>
              (\<exists>q. py_truediv (int (count_list word_list w)) k = Inr q \<and>
                   map_of tf w = Some (py_round q 3) \<and> py_round q 3 \<le> 1))"
proof -
  obtain tf0 m where cw: "count_words word_list ([], 0) = (tf0, m)"
    by (cases "count_words word_list ([], 0)")
  have get: "tf_get tf0 w = int (count_list word_list w)" for w
    using count_words_get [OF cw, of w] by (simp add: tf_get_def)
  have "CHR ''a'' # t \<noteq> t" by simp
  with less have "int (count_list word_list (CHR ''a'' # t)) < k" by blast
  then have pos: "0 < k" by simp
  note k = k pos
  have t_in: "t \<in> set word_list"
    using k by (auto simp: count_list_0_iff intro: ccontr)
  have "k \<le> m"
    using count_words_max_ge [OF cw] t_in by (simp add: get k)
  moreover have "m \<le> k"
  proof -
    from count_words_max_le [OF cw] \<open>k \<le> m\<close> k
    obtain w where "w \<in> set word_list" "m \<le> int (count_list word_list w)"
      by (auto simp: get)
    with less \<open>k \<le> m\<close> have "w = t" by force
    with \<open>m \<le> int (count_list word_list w)\<close> show ?thesis by (simp add: k)
  qed
  ultimately have m: "m = k" by simp
  define f where "f = (\<lambda>freq. py_round (of_int (sgn freq * sgn k) * nearest_double \<bar>freq\<bar> \<bar>k\<bar>) 3)"
  define tf where "tf = map (\<lambda>(word, freq). (word, f freq)) tf0"
  have res: "calculate_tf word_list = Inr tf"
    using k by (simp add: calculate_tf_def cw m score_items_map tf_def f_def)
  have lookup: "map_of tf w = Some (f (int (count_list word_list w)))" if "w \<in> set word_list" for w
  proof -
    from that count_words_dom [OF cw] obtain c where c: "map_of tf0 w = Some c" by auto
    with get [of w] have "c = int (count_list word_list w)" by (simp add: tf_get_def)
    with c show ?thesis by (simp add: tf_def map_of_map)
  qed
  have "map_of tf t = Some 1"
    using lookup [OF t_in] k by (simp add: f_def nearest_double_self py_round_1)
  moreover have "\<exists>q. py_truediv (int (count_list word_list w)) k = Inr q \<and>
                   map_of tf w = Some (py_round q 3) \<and> py_round q 3 \<le> 1"
    if w: "w \<in> set word_list" "w \<noteq> t" for w
  proof -
    let ?c = "int (count_list word_list w)"
    from w have "count_list word_list w \<noteq> 0" by (simp add: count_list_0_iff)
    then have pos: "0 < ?c" by simp
    from w less have "?c \<le> k" by (simp add: less_imp_le)
    with pos have "py_round (nearest_double ?c k) 3 \<le> 1" by (rule score_le_1)
    moreover have "py_truediv ?c k = Inr (nearest_double ?c k)"
      using pos k by (simp add: py_truediv_def)
    moreover have "map_of tf w = Some (py_round (nearest_double ?c k) 3)"
      using lookup [OF w(1)] pos k by (simp add: f_def)
    ultimately show ?thesis by simp
  qed
  ultimately show ?thesis using res by blast
qed

lemma half_scores: "py_truediv 1 2 = Inr (1 / 2)" "py_round (1 / 2) 3 = 1 / 2"
  by code_simp+

theorem calculate_tf_scores_witness:
  "\<exists>tf. calculate_tf [''a'', ''b'', ''a''] = Inr tf \<and> map_of tf ''a'' = Some 1 \<and>
        map_of tf ''b'' = Some (1 / 2)"
proof -
  let ?ws = "[''a'', ''b'', ''a'']"
  have k: "(2::int) = int (count_list ?ws ''a'')" by simp
  have less: "\<forall>w. w \<noteq> ''a'' \<longrightarrow> int (count_list ?ws w) < 2" by simp
  from calculate_tf_scores [OF k less] obtain tf where
    tf: "calculate_tf ?ws = Inr tf" "map_of tf ''a'' = Some 1" and
    others: "\<forall>w \<in> set ?ws. w \<noteq> ''a'' \<longrightarrow>
      (\<exists>q. py_truediv (int (count_list ?ws w)) 2 = Inr q \<and>
           map_of tf w = Some (py_round q 3) \<and> py_round q 3 \<le> 1)"
    by blast
  from others have "\<exists>q. py_truediv 1 2 = Inr q \<and> map_of tf ''b'' = Some (py_round q 3) \<and>
      py_round q 3 \<le> 1"
    by simp
  then obtain q where q: "py_truediv 1 2 = Inr q" "map_of tf ''b'' = Some (py_round q 3)"
    by blast
  from q(1) have "q = 1 / 2" by (simp add: half_scores)
  with q(2) have "map_of tf ''b'' = Some (1 / 2)" by (simp only: half_scores)
  with tf show ?thesis by blast
qed

section \<open>The port argument parser\<close>

text \<open>
  C6: \<^verbatim>\<open>parse_port\<close> returns a sequence of integers or fails. The docstring promises
  a list of ports or a port range, but line 33 returns \<^verbatim>\<open>int(port_args[0])\<close> for a
  single argument without a hyphen: for \<^verbatim>\<open>-p 80\<close> the result is the integer 80, not
  the list \<^verbatim>\<open>[80]\<close>.
\<close>

theorem parse_port_single_returns_int:
  "parse_port [''80''] = Inr (PortInt 80)"
  by (simp add: parse_port_def py_int_def strip_def is_space_def parse_literal_def
      is_digit_def digit_value_def Let_def)

end
